theory Spec2Isabelle
  imports Complex_Main
begin

section \<open>Camoco: the term store and the enrichment test of \<open>camoco/Ontology.py\<close>\<close>

text \<open>
  \<open>Ontology\<close> keeps two SQL tables, \<open>terms (id TEXT UNIQUE, desc TEXT)\<close> and
  \<open>term_loci (term TEXT, id TEXT)\<close>, behind one apsw connection. Every method is a
  short sequence of \<open>cursor.execute\<close> calls, so the model is explicit state passing
  over the connection: a write returns the outcome \<^emph>\<open>and\<close> the connection as the
  exception leaves it, since nothing in the source undoes the statements that ran before
  a raise.
\<close>

subsection \<open>Values\<close>

text \<open>
  Python exceptions the methods can end in. The source declares none of its own:
  \<^item> \<open>TypeError\<close>: \<open>(id, desc) = ... .fetchone()\<close> unpacking \<open>None\<close> in
    \<open>__getitem__\<close>, caught and raised again under the comment "Not in database"
    (the specification calls it NotFoundError);
  \<^item> \<open>ConstraintError\<close>: apsw's error for \<open>INSERT OR ABORT\<close> on the UNIQUE column
    \<open>terms.id\<close> (the specification calls it DuplicateTermError);
  \<^item> \<open>SQLError\<close>: apsw's error for \<open>BEGIN\<close> inside a transaction and for \<open>END\<close>
    outside of one;
  \<^item> \<open>BackendError\<close>: any other failure of \<open>cursor.execute\<close> on a write (disk full,
    I/O error), see \<open>budget\<close> below;
  \<^item> \<open>ResolverError\<close>: what the reference genome raises for an id it does not know.
\<close>

datatype error = TypeError | ConstraintError | SQLError | BackendError | ResolverError

text \<open>
  Modelled from the spec: the Locus value object (\<open>camoco/Locus.py\<close> is not part of the
  sources at hand). \<open>Ontology\<close> reads only \<open>locus.id\<close>; everything else a locus carries
  is one opaque field, so that two loci with the same id can still differ.
\<close>

datatype locus = Locus (locus_id: string) (locus_pos: nat)

text \<open>
  A Python float as far as the source uses it: the p-value is compared with the cutoff
  by \<open>\<le>\<close> and stored. A comparison with NaN is false.
\<close>

datatype pyfloat = NaN | NegInf | Fin real | PosInf

fun float_le :: "pyfloat \<Rightarrow> pyfloat \<Rightarrow> bool" where
  "float_le NaN _ = False"
| "float_le _ NaN = False"
| "float_le NegInf _ = True"
| "float_le (Fin x) NegInf = False"
| "float_le (Fin x) (Fin y) = (x \<le> y)"
| "float_le (Fin x) PosInf = True"
| "float_le PosInf PosInf = True"
| "float_le PosInf _ = False"

text \<open>
  Modelled from the spec: the Term value object (\<open>camoco/Term.py\<close> is not part of the
  sources at hand): an id, a description, the loci and an attribute bag that starts
  empty. \<open>Term(id, desc=desc, loci=term_loci)\<close> is the record with these three fields;
  \<open>term.name\<close>, read once in \<open>enrichment\<close>, is taken to be the id.
\<close>

record ontology_term =
  tid :: string
  desc :: string
  loci :: "locus list"
  attrs :: "string \<rightharpoonup> pyfloat"

text \<open>
  The connection \<open>self.db\<close>: the rows of the two tables in insertion order, whether a
  transaction is open (all cursors of a connection share it), and \<open>budget\<close>, the handle
  by which a failing backend is a branch of the model: \<open>Some n\<close> says that the backend
  carries out \<open>n\<close> more write statements and raises on the next, \<open>None\<close> that it never
  does. A refused statement changes nothing and leaves the transaction open, which is
  what SQLite does on a statement-level failure. Reads do not count.
\<close>

record conn =
  terms :: "(string \<times> string) list"
  term_loci :: "(string \<times> string) list"
  in_txn :: bool
  budget :: "nat option"

text \<open>The argument \<open>cursor\<close>: \<open>None\<close>, or a cursor of the same connection.\<close>

datatype cursor = Cursor

subsection \<open>Statements\<close>

text \<open>The SQL statements the write methods execute.\<close>

datatype stmt =
    Begin
  | End
  | InsertTerm string string
  | InsertTermLocus string string
  | DeleteTermLoci string
  | DeleteTerm string

type_synonym 'a outcome = "(error + 'a) \<times> conn"

fun run_stmt :: "stmt \<Rightarrow> conn \<Rightarrow> unit outcome" where
  "run_stmt Begin s =
     (if in_txn s then (Inl SQLError, s) else (Inr (), s\<lparr>in_txn := True\<rparr>))"
| "run_stmt End s =
     (if in_txn s then (Inr (), s\<lparr>in_txn := False\<rparr>) else (Inl SQLError, s))"
| "run_stmt (InsertTerm i d) s =
     (if i \<in> fst ` set (terms s) then (Inl ConstraintError, s)
      else (Inr (), s\<lparr>terms := terms s @ [(i, d)]\<rparr>))"
| "run_stmt (InsertTermLocus t i) s = (Inr (), s\<lparr>term_loci := term_loci s @ [(t, i)]\<rparr>)"
| "run_stmt (DeleteTermLoci t) s =
     (Inr (), s\<lparr>term_loci := filter (\<lambda>r. fst r \<noteq> t) (term_loci s)\<rparr>)"
| "run_stmt (DeleteTerm i) s = (Inr (), s\<lparr>terms := filter (\<lambda>r. fst r \<noteq> i) (terms s)\<rparr>)"

text \<open>\<open>cur.execute(...)\<close> of one write statement.\<close>

definition execute :: "stmt \<Rightarrow> conn \<Rightarrow> unit outcome" where
  "execute q s =
     (case budget s of
        None \<Rightarrow> run_stmt q s
      | Some 0 \<Rightarrow> (Inl BackendError, s)
      | Some (Suc n) \<Rightarrow> run_stmt q (s\<lparr>budget := Some n\<rparr>))"

text \<open>One call after another: an exception in the first skips the second.\<close>

definition and_then :: "(conn \<Rightarrow> unit outcome) \<Rightarrow> (conn \<Rightarrow> unit outcome) \<Rightarrow> conn \<Rightarrow> unit outcome" where
  "and_then f g s = (case f s of (Inl e, s') \<Rightarrow> (Inl e, s') | (Inr _, s') \<Rightarrow> g s')"

definition skip :: "conn \<Rightarrow> unit outcome" where
  "skip s = (Inr (), s)"

subsection \<open>The store\<close>

text \<open>\<open>__len__\<close>: \<open>SELECT COUNT(*) FROM terms\<close>.\<close>

definition ontology_len :: "conn \<Rightarrow> nat" where
  "ontology_len s = length (terms s)"

text \<open>\<open>num_distinct_loci\<close>: \<open>SELECT COUNT(DISTINCT(id)) FROM term_loci\<close>.\<close>

definition num_distinct_loci :: "conn \<Rightarrow> nat" where
  "num_distinct_loci s = length (remdups (map snd (term_loci s)))"

text \<open>
  \<open>del_term(term, cursor=None)\<close>; \<open>term\<close> is a Term or an id. The two DELETE statements
  are one \<open>execute\<close> call in the source and run one after the other.
\<close>

datatype term_or_id = ByTerm ontology_term | ById string

definition del_term :: "term_or_id \<Rightarrow> cursor option \<Rightarrow> conn \<Rightarrow> unit outcome" where
  "del_term t cursor =
     (let i = (case t of ByTerm x \<Rightarrow> tid x | ById x \<Rightarrow> x) in
      and_then (if cursor = None then execute Begin else skip)
     (and_then (execute (DeleteTermLoci i))
     (and_then (execute (DeleteTerm i))
               (if cursor = None then execute End else skip))))"

text \<open>The loop \<open>for locus in term.loci: cur.execute(INSERT ... (term.id, locus.id))\<close>.\<close>

fun insert_loci :: "string \<Rightarrow> locus list \<Rightarrow> conn \<Rightarrow> unit outcome" where
  "insert_loci t [] s = (Inr (), s)"
| "insert_loci t (l # ls) s =
     (case execute (InsertTermLocus t (locus_id l)) s of
        (Inl e, s') \<Rightarrow> (Inl e, s')
      | (Inr _, s') \<Rightarrow> insert_loci t ls s')"

text \<open>\<open>add_term(term, cursor=None, overwrite=False)\<close>.\<close>

definition add_term :: "ontology_term \<Rightarrow> cursor option \<Rightarrow> bool \<Rightarrow> conn \<Rightarrow> unit outcome" where
  "add_term t cursor overwrite =
      and_then (if overwrite then del_term (ById (tid t)) None else skip)
     (and_then (if cursor = None then execute Begin else skip)
     (and_then (execute (InsertTerm (tid t) (desc t)))
     (and_then (insert_loci (tid t) (loci t))
               (if cursor = None then execute End else skip))))"

subsection \<open>The collaborators\<close>

text \<open>
  What \<open>Ontology\<close> calls and does not define is a parameter of the model:
  \<^item> \<open>refgen_getitem\<close> is \<open>self.refgen[gene_id]\<close>. In \<open>__getitem__\<close> the source hands it
    the row of the cursor as it is, a tuple of one column, so the argument is the row;
  \<^item> \<open>refgen_from_ids\<close> is \<open>self.refgen.from_ids\<close>, which drops the ids it does not know;
  \<^item> \<open>hypergeom_sf\<close> is \<open>scipy.stats.hypergeom.sf\<close>;
  \<^item> \<open>sqlite_select\<close> is SQLite on a candidate query whose text, after the locus ids were
    pasted into it, is no longer a plain list of string literals (see \<open>sql_in_list\<close>).
\<close>

record env =
  refgen_getitem :: "string list \<Rightarrow> error + locus"
  refgen_from_ids :: "string list \<Rightarrow> locus list"
  hypergeom_sf :: "nat \<Rightarrow> nat \<Rightarrow> nat \<Rightarrow> nat \<Rightarrow> pyfloat"
  sqlite_select :: "string \<Rightarrow> conn \<Rightarrow> error + string list"

text \<open>A list comprehension over calls that can raise: the first exception ends it.\<close>

fun collect :: "('a \<Rightarrow> error + 'b) \<Rightarrow> 'a list \<Rightarrow> error + 'b list" where
  "collect f [] = Inr []"
| "collect f (x # xs) =
     (case f x of
        Inl e \<Rightarrow> Inl e
      | Inr y \<Rightarrow> (case collect f xs of Inl e \<Rightarrow> Inl e | Inr ys \<Rightarrow> Inr (y # ys)))"

text \<open>\<open>__getitem__\<close>: the first row of \<open>terms\<close> with the id, then one locus per row of
  \<open>SELECT id FROM term_loci WHERE term = ?\<close>.\<close>

definition getitem :: "env \<Rightarrow> conn \<Rightarrow> string \<Rightarrow> error + ontology_term" where
  "getitem E s i =
     (case find (\<lambda>r. fst r = i) (terms s) of
        None \<Rightarrow> Inl TypeError
      | Some (i', d) \<Rightarrow>
          (case collect (refgen_getitem E)
                  (map (\<lambda>r. [snd r]) (filter (\<lambda>r. fst r = i') (term_loci s))) of
             Inl e \<Rightarrow> Inl e
           | Inr term_loci' \<Rightarrow> Inr \<lparr>tid = i', desc = d, loci = term_loci', attrs = Map.empty\<rparr>))"

subsection \<open>Enrichment\<close>

text \<open>\<open>sep.join(xs)\<close> of Python.\<close>

fun join :: "string \<Rightarrow> string list \<Rightarrow> string" where
  "join sep [] = []"
| "join sep [x] = x"
| "join sep (x # y # ys) = x @ sep @ join sep (y # ys)"

definition quote :: char where
  "quote = CHR 0x27"

text \<open>
  The candidate query is built as text,
  \<^verbatim>\<open>SELECT DISTINCT(term) FROM term_loci WHERE id IN ('{}')\<close> with
  \<^verbatim>\<open>"','".join([x.id for x in locus_list])\<close> in place of the braces.
  \<open>in_list_text\<close> is that text from the first quote to the closing parenthesis.
\<close>

definition in_list_text :: "locus list \<Rightarrow> string" where
  "in_list_text locus_list =
     [quote] @ join [quote, CHR '','', quote] (map locus_id locus_list) @ [quote, CHR '')'']"

text \<open>
  How SQLite reads such a text when it is a list of string literals and nothing else: a
  literal runs from a quote to the next quote that is not doubled, a doubled quote
  stands for one quote, a comma starts the next literal and the parenthesis ends the
  list. \<open>sql_in_list\<close> gives the literals, or \<open>None\<close> for any other text.
\<close>

datatype scan_mode = Before_literal | In_literal | After_quote

fun scan :: "scan_mode \<Rightarrow> string \<Rightarrow> string list \<Rightarrow> string \<Rightarrow> string list option" where
  "scan Before_literal cur acc [] = None"
| "scan Before_literal cur acc (c # cs) =
     (if c = quote then scan In_literal [] acc cs else None)"
| "scan In_literal cur acc [] = None"
| "scan In_literal cur acc (c # cs) =
     (if c = quote then scan After_quote cur acc cs else scan In_literal (cur @ [c]) acc cs)"
| "scan After_quote cur acc [] = None"
| "scan After_quote cur acc (c # cs) =
     (if c = quote then scan In_literal (cur @ [quote]) acc cs
      else if c = CHR '','' then scan Before_literal [] (acc @ [cur]) cs
      else if c = CHR '')'' \<and> cs = [] then Some (acc @ [cur])
      else None)"

definition sql_in_list :: "string \<Rightarrow> string list option" where
  "sql_in_list txt = scan Before_literal [] [] txt"

text \<open>\<open>SELECT DISTINCT\<close>: each value once, where it occurs first.\<close>

definition distinct_rows :: "'a list \<Rightarrow> 'a list" where
  "distinct_rows xs = rev (remdups (rev xs))"

text \<open>
  The rows of the candidate query, one term id each:
  \<open>SELECT DISTINCT(term) FROM term_loci WHERE id IN (...)\<close>.
\<close>

definition candidates :: "env \<Rightarrow> conn \<Rightarrow> locus list \<Rightarrow> error + string list" where
  "candidates E s locus_list =
     (case sql_in_list (in_list_text locus_list) of
        Some lits \<Rightarrow> Inr (distinct_rows (map fst (filter (\<lambda>r. snd r \<in> set lits) (term_loci s))))
      | None \<Rightarrow> sqlite_select E (in_list_text locus_list) s)"

text \<open>
  \<open>term_genes\<close>: \<open>set(self.refgen.from_ids(chain(*rows)))\<close> over the rows of
  \<open>SELECT id FROM term_loci WHERE term = ?\<close>. A Python set is kept as a list without
  repetitions; loci are compared as values.
\<close>

definition term_genes :: "env \<Rightarrow> conn \<Rightarrow> ontology_term \<Rightarrow> locus list" where
  "term_genes E s t =
     remdups (refgen_from_ids E (map snd (filter (\<lambda>r. fst r = tid t) (term_loci s))))"

text \<open>\<open>term_genes.intersection(locus_list)\<close>: the members that occur in the list.\<close>

definition intersection :: "locus list \<Rightarrow> locus list \<Rightarrow> locus list" where
  "intersection genes locus_list = filter (\<lambda>g. g \<in> set locus_list) genes"

text \<open>\<open>term.attrs[key] = value\<close>.\<close>

definition set_attr :: "ontology_term \<Rightarrow> string \<Rightarrow> pyfloat \<Rightarrow> ontology_term" where
  "set_attr t key v = t\<lparr>attrs := (attrs t)(key \<mapsto> v)\<rparr>"

text \<open>The loop \<open>for term in terms\<close>, with \<open>significant_terms\<close> as accumulator.\<close>

fun enrich_loop ::
  "env \<Rightarrow> conn \<Rightarrow> locus list \<Rightarrow> pyfloat \<Rightarrow> int \<Rightarrow> ontology_term list \<Rightarrow>
   ontology_term list \<Rightarrow> ontology_term list" where
  "enrich_loop E s locus_list pval_cutoff max_term_size [] significant_terms =
     significant_terms"
| "enrich_loop E s locus_list pval_cutoff max_term_size (t # ts) significant_terms =
     (if int (length (term_genes E s t)) > max_term_size
      then enrich_loop E s locus_list pval_cutoff max_term_size ts significant_terms
      else
        let num_common = length (intersection (term_genes E s t) locus_list);
            num_in_term = length (term_genes E s t);
            num_sampled = length locus_list;
            num_universe = num_distinct_loci s;
            pval = hypergeom_sf E num_common num_universe num_in_term num_sampled
        in if float_le pval pval_cutoff
           then enrich_loop E s locus_list pval_cutoff max_term_size ts
                  (significant_terms @ [set_attr t ''pval'' pval])
           else enrich_loop E s locus_list pval_cutoff max_term_size ts significant_terms)"

text \<open>\<open>enrichment(locus_list, pval_cutoff=0.05, max_term_size=300)\<close>.\<close>

definition enrichment ::
  "env \<Rightarrow> conn \<Rightarrow> locus list \<Rightarrow> pyfloat \<Rightarrow> int \<Rightarrow> error + ontology_term list" where
  "enrichment E s locus_list pval_cutoff max_term_size =
     (case candidates E s locus_list of
        Inl e \<Rightarrow> Inl e
      | Inr names \<Rightarrow>
          (case collect (getitem E s) names of
             Inl e \<Rightarrow> Inl e
           | Inr ts \<Rightarrow> Inr (enrich_loop E s locus_list pval_cutoff max_term_size ts [])))"

subsection \<open>Store invariant\<close>

text \<open>
  Every association row belongs to a stored term. \<open>create\<close> starts from empty tables,
  and \<open>add_term\<close> and \<open>del_term\<close> keep it, however they end: the descriptor row is
  inserted before the association rows and deleted after them.
\<close>

definition wf_store :: "conn \<Rightarrow> bool" where
  "wf_store s = (fst ` set (term_loci s) \<subseteq> fst ` set (terms s))"

text \<open>The tables an insert of id \<open>i\<close> starts from, after the delete of \<open>overwrite\<close>.\<close>

definition base_tables ::
  "bool \<Rightarrow> string \<Rightarrow> conn \<Rightarrow> (string \<times> string) list \<times> (string \<times> string) list" where
  "base_tables ow i s =
     (if ow then (filter (\<lambda>r. fst r \<noteq> i) (terms s), filter (\<lambda>r. fst r \<noteq> i) (term_loci s))
      else (terms s, term_loci s))"

subsection \<open>What the enrichment test is meant to count\<close>

text \<open>
  The resolved membership of the term with id \<open>i\<close>, as a set, and the p-value of the
  test in terms of sets: the number of members in the input taken as a set, the number
  of distinct locus ids of the store, the number of members, and the length of the
  input. The loop of \<open>enrichment\<close> is compared with these below.
\<close>

definition membership :: "env \<Rightarrow> conn \<Rightarrow> string \<Rightarrow> locus set" where
  "membership E s i =
     set (refgen_from_ids E (map snd (filter (\<lambda>r. fst r = i) (term_loci s))))"

definition pval_of :: "env \<Rightarrow> conn \<Rightarrow> locus list \<Rightarrow> string \<Rightarrow> pyfloat" where
  "pval_of E s locus_list i =
     hypergeom_sf E (card (membership E s i \<inter> set locus_list)) (num_distinct_loci s)
       (card (membership E s i)) (length locus_list)"

subsection \<open>A small ontology\<close>

text \<open>
  Concrete values for the parameters: a reference genome of three genes, the
  hypergeometric survival function \<open>P(X > k)\<close> in exact arithmetic (NaN outside the
  domain, as scipy has it), and the store \<open>create\<close> leaves behind.
\<close>

definition empty_conn :: conn where
  "empty_conn = \<lparr>terms = [], term_loci = [], in_txn = False, budget = None\<rparr>"

definition genome :: "locus list" where
  "genome = [Locus ''g1'' 10, Locus ''g2'' 20, Locus ''g3'' 30]"

definition genome_getitem :: "string list \<Rightarrow> error + locus" where
  "genome_getitem row =
     (case row of
        [i] \<Rightarrow> (case find (\<lambda>l. locus_id l = i) genome of
                  Some l \<Rightarrow> Inr l
                | None \<Rightarrow> Inl ResolverError)
      | _ \<Rightarrow> Inl ResolverError)"

definition genome_from_ids :: "string list \<Rightarrow> locus list" where
  "genome_from_ids ids = filter (\<lambda>l. locus_id l \<in> set ids) genome"

definition exact_sf :: "nat \<Rightarrow> nat \<Rightarrow> nat \<Rightarrow> nat \<Rightarrow> pyfloat" where
  "exact_sf k M n N =
     (if n \<le> M \<and> N \<le> M
      then Fin (real (\<Sum>i\<leftarrow>[Suc k..<Suc (min n N)]. (n choose i) * ((M - n) choose (N - i)))
                / real (M choose N))
      else NaN)"

definition genome_env :: env where
  "genome_env = \<lparr>refgen_getitem = genome_getitem, refgen_from_ids = genome_from_ids,
                  hypergeom_sf = exact_sf, sqlite_select = (\<lambda>_ _. Inl SQLError)\<rparr>"

definition T1 :: ontology_term where
  "T1 = \<lparr>tid = ''T1'', desc = ''first'', loci = [Locus ''g1'' 10, Locus ''g2'' 20],
          attrs = Map.empty\<rparr>"

definition T1' :: ontology_term where
  "T1' = \<lparr>tid = ''T1'', desc = ''again'', loci = [Locus ''g3'' 30], attrs = Map.empty\<rparr>"

definition T9 :: ontology_term where
  "T9 = \<lparr>tid = ''T9'', desc = ''orphan'', loci = [Locus ''g9'' 90], attrs = Map.empty\<rparr>"

definition store1 :: conn where
  "store1 = \<lparr>terms = [(''T1'', ''first'')],
              term_loci = [(''T1'', ''g1''), (''T1'', ''g2'')], in_txn = False, budget = None\<rparr>"

text \<open>
  A locus id with quotes in it, a reference genome that knows every id, and a store whose
  only term has a locus with the empty id.
\<close>

definition quoted_id :: string where
  "quoted_id = ''x'' @ [quote, CHR '','', quote] @ ''g1''"

definition whole_env :: env where
  "whole_env = \<lparr>refgen_getitem = (\<lambda>row. case row of [i] \<Rightarrow> Inr (Locus i 0) | _ \<Rightarrow> Inl ResolverError),
                 refgen_from_ids = map (\<lambda>i. Locus i 0),
                 hypergeom_sf = exact_sf, sqlite_select = (\<lambda>_ _. Inl SQLError)\<rparr>"

definition T0 :: ontology_term where
  "T0 = \<lparr>tid = ''T0'', desc = ''unnamed'', loci = [Locus [] 0], attrs = Map.empty\<rparr>"

definition store0 :: conn where
  "store0 = \<lparr>terms = [(''T0'', ''unnamed'')], term_loci = [(''T0'', [])], in_txn = False,
              budget = None\<rparr>"

text \<open>The store of \<open>store1\<close> with a second term.\<close>

definition store2 :: conn where
  "store2 = \<lparr>terms = [(''T1'', ''first''), (''T2'', ''second'')],
              term_loci = [(''T1'', ''g1''), (''T1'', ''g2''), (''T2'', ''g3'')],
              in_txn = False, budget = None\<rparr>"

section \<open>Properties\<close>

subsection \<open>What a successful write leaves behind\<close>

lemma execute_Begin_ok:
  "execute Begin s = (Inr u, s') \<Longrightarrow>
     terms s' = terms s \<and> term_loci s' = term_loci s \<and> \<not> in_txn s \<and> in_txn s'"
  by (auto simp: execute_def split: option.splits nat.splits if_splits)

lemma execute_End_ok:
  "execute End s = (Inr u, s') \<Longrightarrow>
     terms s' = terms s \<and> term_loci s' = term_loci s \<and> in_txn s \<and> \<not> in_txn s'"
  by (auto simp: execute_def split: option.splits nat.splits if_splits)

lemma execute_InsertTerm_ok:
  "execute (InsertTerm i d) s = (Inr u, s') \<Longrightarrow>
     terms s' = terms s @ [(i, d)] \<and> term_loci s' = term_loci s \<and> in_txn s' = in_txn s
     \<and> i \<notin> fst ` set (terms s)"
  by (auto simp: execute_def split: option.splits nat.splits if_splits)

lemma execute_InsertTermLocus_ok:
  "execute (InsertTermLocus t i) s = (Inr u, s') \<Longrightarrow>
     terms s' = terms s \<and> term_loci s' = term_loci s @ [(t, i)] \<and> in_txn s' = in_txn s"
  by (auto simp: execute_def split: option.splits nat.splits if_splits)

lemma execute_DeleteTermLoci_ok:
  "execute (DeleteTermLoci t) s = (Inr u, s') \<Longrightarrow>
     terms s' = terms s \<and> term_loci s' = filter (\<lambda>r. fst r \<noteq> t) (term_loci s) \<and> in_txn s' = in_txn s"
  by (auto simp: execute_def split: option.splits nat.splits if_splits)

lemma execute_DeleteTerm_ok:
  "execute (DeleteTerm i) s = (Inr u, s') \<Longrightarrow>
     terms s' = filter (\<lambda>r. fst r \<noteq> i) (terms s) \<and> term_loci s' = term_loci s \<and> in_txn s' = in_txn s"
  by (auto simp: execute_def split: option.splits nat.splits if_splits)

lemma insert_loci_ok:
  "insert_loci t ls s = (Inr u, s') \<Longrightarrow>
     terms s' = terms s \<and> term_loci s' = term_loci s @ map (\<lambda>l. (t, locus_id l)) ls
     \<and> in_txn s' = in_txn s"
proof (induction ls arbitrary: s)
  case Nil
  then show ?case by simp
next
  case (Cons l ls)
  then show ?case
    by (auto split: prod.splits sum.splits dest!: execute_InsertTermLocus_ok)
qed

lemma and_then_ok:
  "and_then f g s = (Inr u, s') \<Longrightarrow> \<exists>v s1. f s = (Inr v, s1) \<and> g s1 = (Inr u, s')"
  by (auto simp: and_then_def split: prod.splits sum.splits)

lemma del_term_ok:
  "del_term t c s = (Inr u, s') \<Longrightarrow>
     terms s' = filter (\<lambda>r. fst r \<noteq> (case t of ByTerm x \<Rightarrow> tid x | ById x \<Rightarrow> x)) (terms s) \<and>
     term_loci s' = filter (\<lambda>r. fst r \<noteq> (case t of ByTerm x \<Rightarrow> tid x | ById x \<Rightarrow> x)) (term_loci s)"
  unfolding del_term_def Let_def
  by (cases c) (auto simp: skip_def dest!: and_then_ok execute_Begin_ok execute_End_ok execute_DeleteTerm_ok execute_DeleteTermLoci_ok)

lemma add_term_ok:
  assumes "add_term t c ow s = (Inr u, s')"
  shows "terms s' = fst (base_tables ow (tid t) s) @ [(tid t, desc t)]"
    and "term_loci s' = snd (base_tables ow (tid t) s) @ map (\<lambda>l. (tid t, locus_id l)) (loci t)"
    and "tid t \<notin> fst ` set (fst (base_tables ow (tid t) s))"
    and "c = None \<Longrightarrow> \<not> in_txn s'"
  using assms unfolding add_term_def base_tables_def
  by (cases c; cases ow; auto simp: skip_def dest!: and_then_ok del_term_ok execute_Begin_ok execute_End_ok execute_InsertTerm_ok insert_loci_ok)+


lemma find_append_new:
  "i \<notin> fst ` set xs \<Longrightarrow> find (\<lambda>r. fst r = i) (xs @ [(i, d)]) = Some (i, d)"
  by (induction xs) auto

lemma find_none: "i \<notin> fst ` set xs \<Longrightarrow> find (\<lambda>r. fst r = i) xs = None"
  by (induction xs) auto

lemma filter_none: "i \<notin> fst ` set xs \<Longrightarrow> filter (\<lambda>r. fst r = i) xs = []"
  by (induction xs) auto

lemma collect_resolved:
  "\<forall>l\<in>set ls. f [locus_id l] = Inr l \<Longrightarrow> collect f (map (\<lambda>l. [locus_id l]) ls) = Inr ls"
  by (induction ls) auto

lemma add_T1: "add_term T1 None False empty_conn = (Inr (), store1)"
  by (simp add: add_term_def and_then_def skip_def execute_def empty_conn_def T1_def store1_def)

subsection \<open>The invariant is kept\<close>

text \<open>
  \<open>add_term\<close> and \<open>del_term\<close> keep \<open>wf_store\<close> whether they return or raise, and the
  empty store has it: every store built by these calls satisfies it.
\<close>

lemma and_then_keeps:
  assumes f: "\<And>s. P s \<Longrightarrow> I (snd (f s))"
    and fq: "\<And>s u s'. P s \<Longrightarrow> f s = (Inr u, s') \<Longrightarrow> Q s'"
    and g: "\<And>s. Q s \<Longrightarrow> I (snd (g s))"
    and p: "P s"
  shows "I (snd (and_then f g s))"
proof (cases "f s")
  case (Pair r s')
  show ?thesis
  proof (cases r)
    case (Inl e)
    with Pair f [OF p] show ?thesis by (simp add: and_then_def)
  next
    case (Inr u)
    with Pair fq [OF p] g show ?thesis by (simp add: and_then_def)
  qed
qed

lemma wf_budget: "wf_store (s\<lparr>budget := b\<rparr>) = wf_store s"
  by (simp add: wf_store_def)

lemma execute_cases:
  "execute q s = (Inl BackendError, s) \<or> (\<exists>b. execute q s = run_stmt q (s\<lparr>budget := b\<rparr>))"
proof (cases "budget s")
  case None
  have "s\<lparr>budget := budget s\<rparr> = s" by simp
  with None have "execute q s = run_stmt q (s\<lparr>budget := budget s\<rparr>)"
    by (simp only: execute_def option.case)
  then show ?thesis by blast
next
  case (Some n)
  then show ?thesis by (cases n) (auto simp: execute_def)
qed

lemma ids_filter: "fst ` set (filter (\<lambda>r. fst r \<noteq> i) xs) = fst ` set xs - {i}"
  by (induction xs) auto

lemma wf_run_stmt:
  assumes "wf_store s"
    and "\<And>t i. q = InsertTermLocus t i \<Longrightarrow> t \<in> fst ` set (terms s)"
    and "\<And>i. q = DeleteTerm i \<Longrightarrow> i \<notin> fst ` set (term_loci s)"
  shows "wf_store (snd (run_stmt q s))"
proof (cases q)
  case (DeleteTerm i)
  with assms(3) have "i \<notin> fst ` set (term_loci s)" by simp
  with assms(1) have "fst ` set (term_loci s) \<subseteq> fst ` set (terms s) - {i}"
    unfolding wf_store_def by blast
  with DeleteTerm show ?thesis by (simp add: wf_store_def ids_filter del: set_filter)
next
  case (DeleteTermLoci t)
  with assms(1) show ?thesis unfolding wf_store_def by (simp add: ids_filter del: set_filter) blast
next
  case (InsertTermLocus t i)
  with assms(1) assms(2) show ?thesis by (auto simp: wf_store_def)
next
  case (InsertTerm i d)
  with assms(1) show ?thesis by (auto simp: wf_store_def)
qed (use assms(1) in \<open>auto simp: wf_store_def\<close>)


lemma wf_execute:
  assumes "wf_store s"
    and "\<And>t i. q = InsertTermLocus t i \<Longrightarrow> t \<in> fst ` set (terms s)"
    and "\<And>i. q = DeleteTerm i \<Longrightarrow> i \<notin> fst ` set (term_loci s)"
  shows "wf_store (snd (execute q s))"
proof -
  from execute_cases [of q s] show ?thesis
  proof
    assume "execute q s = (Inl BackendError, s)"
    with assms(1) show ?thesis by simp
  next
    assume "\<exists>b. execute q s = run_stmt q (s\<lparr>budget := b\<rparr>)"
    then obtain b where b: "execute q s = run_stmt q (s\<lparr>budget := b\<rparr>)" ..
    have "wf_store (snd (run_stmt q (s\<lparr>budget := b\<rparr>)))"
      using assms by (intro wf_run_stmt) (simp_all add: wf_budget)
    with b show ?thesis by simp
  qed
qed

lemma wf_skip: "wf_store s \<Longrightarrow> wf_store (snd (skip s))"
  by (simp add: skip_def)

lemma wf_txn: "wf_store s \<Longrightarrow> wf_store (snd ((if c = None then execute q else skip) s))"
  if "q = Begin \<or> q = End"
  using that by (auto intro!: wf_execute wf_skip)

lemma terms_execute_InsertTermLocus:
  "terms (snd (execute (InsertTermLocus t i) s)) = terms s"
  by (simp add: execute_def split: option.splits nat.splits)

lemma wf_insert_loci:
  "wf_store s \<Longrightarrow> t \<in> fst ` set (terms s) \<Longrightarrow>
     wf_store (snd (insert_loci t ls s)) \<and> t \<in> fst ` set (terms (snd (insert_loci t ls s)))"
proof (induction ls arbitrary: s)
  case Nil
  then show ?case by simp
next
  case (Cons l ls)
  obtain r s1 where step: "execute (InsertTermLocus t (locus_id l)) s = (r, s1)"
    by (cases "execute (InsertTermLocus t (locus_id l)) s")
  have wf1: "wf_store s1"
    using wf_execute [of s "InsertTermLocus t (locus_id l)"] Cons.prems step by simp
  have in1: "t \<in> fst ` set (terms s1)"
    using terms_execute_InsertTermLocus [of t "locus_id l" s] Cons.prems(2) step by simp
  show ?case
  proof (cases r)
    case (Inl e)
    with step wf1 in1 show ?thesis by simp
  next
    case (Inr u)
    with step Cons.IH [OF wf1 in1] show ?thesis by simp
  qed
qed

lemma wf_del_term:
  assumes wf: "wf_store s"
  shows "wf_store (snd (del_term t c s))"
proof -
  define i where "i = (case t of ByTerm x \<Rightarrow> tid x | ById x \<Rightarrow> x)"
  let ?begin = "if c = None then execute Begin else skip"
  let ?end = "if c = None then execute End else skip"
  let ?clean = "\<lambda>s. wf_store s \<and> i \<notin> fst ` set (term_loci s)"
  have e: "wf_store (snd (?end s))" if "wf_store s" for s
    using that by (intro wf_txn) simp
  have d2: "wf_store (snd (execute (DeleteTerm i) s))" if "?clean s" for s
    using that by (intro wf_execute) simp_all
  have s3: "wf_store (snd (and_then (execute (DeleteTerm i)) ?end s))" if "?clean s" for s
  proof (rule and_then_keeps [where P = ?clean and Q = wf_store])
    show "?clean s" by (rule that)
  next
    fix s assume "?clean s" then show "wf_store (snd (execute (DeleteTerm i) s))" by (rule d2)
  next
    fix s u s' assume "?clean s" and "execute (DeleteTerm i) s = (Inr u, s')"
    with d2 [of s] show "wf_store s'" by simp
  next
    fix s assume "wf_store s" then show "wf_store (snd (?end s))" by (rule e)
  qed
  have d1: "wf_store (snd (execute (DeleteTermLoci i) s))" if "wf_store s" for s
    using that by (intro wf_execute) simp_all
  have s2: "wf_store (snd (and_then (execute (DeleteTermLoci i))
              (and_then (execute (DeleteTerm i)) ?end) s))" if "wf_store s" for s
  proof (rule and_then_keeps [where P = wf_store and Q = ?clean])
    show "wf_store s" by (rule that)
  next
    fix s assume "wf_store s" then show "wf_store (snd (execute (DeleteTermLoci i) s))" by (rule d1)
  next
    fix s u s' assume w: "wf_store s" and ok: "execute (DeleteTermLoci i) s = (Inr u, s')"
    from d1 [OF w] ok have "wf_store s'" by simp
    moreover from execute_DeleteTermLoci_ok [OF ok] have "i \<notin> fst ` set (term_loci s')"
      by (simp add: ids_filter del: set_filter)
    ultimately show "?clean s'" ..
  next
    fix s assume "?clean s"
    then show "wf_store (snd (and_then (execute (DeleteTerm i)) ?end s))" by (rule s3)
  qed
  have b: "wf_store (snd (?begin s))" if "wf_store s" for s
    using that by (intro wf_txn) simp
  have "wf_store (snd (and_then ?begin (and_then (execute (DeleteTermLoci i))
              (and_then (execute (DeleteTerm i)) ?end)) s))"
  proof (rule and_then_keeps [where P = wf_store and Q = wf_store])
    show "wf_store s" by (rule wf)
  next
    fix s assume "wf_store s" then show "wf_store (snd (?begin s))" by (rule b)
  next
    fix s u s' assume "wf_store s" and "?begin s = (Inr u, s')"
    with b [of s] show "wf_store s'" by simp
  next
    fix s assume "wf_store s"
    then show "wf_store (snd (and_then (execute (DeleteTermLoci i))
              (and_then (execute (DeleteTerm i)) ?end) s))" by (rule s2)
  qed
  then show ?thesis unfolding del_term_def Let_def i_def .
qed

lemma wf_add_term:
  assumes wf: "wf_store s"
  shows "wf_store (snd (add_term t c ow s))"
proof -
  let ?del = "if ow then del_term (ById (tid t)) None else skip"
  let ?begin = "if c = None then execute Begin else skip"
  let ?end = "if c = None then execute End else skip"
  let ?ins = "execute (InsertTerm (tid t) (desc t))"
  let ?loci = "insert_loci (tid t) (loci t)"
  let ?named = "\<lambda>s. wf_store s \<and> tid t \<in> fst ` set (terms s)"
  have e: "wf_store (snd (?end s))" if "wf_store s" for s
    using that by (intro wf_txn) simp
  have s4: "wf_store (snd (and_then ?loci ?end s))" if "?named s" for s
  proof (rule and_then_keeps [where P = ?named and Q = wf_store])
    show "?named s" by (rule that)
  next
    fix s assume "?named s" then show "wf_store (snd (?loci s))"
      using wf_insert_loci by blast
  next
    fix s u s' assume "?named s" and "?loci s = (Inr u, s')"
    with wf_insert_loci [of s "tid t" "loci t"] show "wf_store s'" by simp
  next
    fix s assume "wf_store s" then show "wf_store (snd (?end s))" by (rule e)
  qed
  have i: "wf_store (snd (?ins s))" if "wf_store s" for s
    using that by (intro wf_execute) simp_all
  have s3: "wf_store (snd (and_then ?ins (and_then ?loci ?end) s))" if "wf_store s" for s
  proof (rule and_then_keeps [where P = wf_store and Q = ?named])
    show "wf_store s" by (rule that)
  next
    fix s assume "wf_store s" then show "wf_store (snd (?ins s))" by (rule i)
  next
    fix s u s' assume w: "wf_store s" and ok: "?ins s = (Inr u, s')"
    from i [OF w] ok have "wf_store s'" by simp
    moreover from execute_InsertTerm_ok [OF ok] have "tid t \<in> fst ` set (terms s')" by simp
    ultimately show "?named s'" ..
  next
    fix s assume "?named s" then show "wf_store (snd (and_then ?loci ?end s))" by (rule s4)
  qed
  have b: "wf_store (snd (?begin s))" if "wf_store s" for s
    using that by (intro wf_txn) simp
  have s2: "wf_store (snd (and_then ?begin (and_then ?ins (and_then ?loci ?end)) s))"
    if "wf_store s" for s
  proof (rule and_then_keeps [where P = wf_store and Q = wf_store])
    show "wf_store s" by (rule that)
  next
    fix s assume "wf_store s" then show "wf_store (snd (?begin s))" by (rule b)
  next
    fix s u s' assume "wf_store s" and "?begin s = (Inr u, s')"
    with b [of s] show "wf_store s'" by simp
  next
    fix s assume "wf_store s"
    then show "wf_store (snd (and_then ?ins (and_then ?loci ?end) s))" by (rule s3)
  qed
  have d: "wf_store (snd (?del s))" if "wf_store s" for s
    using that by (simp add: wf_del_term wf_skip)
  have "wf_store (snd (and_then ?del (and_then ?begin (and_then ?ins (and_then ?loci ?end))) s))"
  proof (rule and_then_keeps [where P = wf_store and Q = wf_store])
    show "wf_store s" by (rule wf)
  next
    fix s assume "wf_store s" then show "wf_store (snd (?del s))" by (rule d)
  next
    fix s u s' assume "wf_store s" and "?del s = (Inr u, s')"
    with d [of s] show "wf_store s'" by simp
  next
    fix s assume "wf_store s"
    then show "wf_store (snd (and_then ?begin (and_then ?ins (and_then ?loci ?end)) s))"
      by (rule s2)
  qed
  then show ?thesis unfolding add_term_def .
qed

lemma wf_empty_conn: "wf_store empty_conn"
  by (simp add: wf_store_def empty_conn_def)

subsection \<open>Round trip\<close>

text \<open>
  C1 (as amended). A term inserted by a successful \<open>add_term\<close> into a store that
  satisfies the invariant is found again by its id, with the same id and description
  and the same loci, provided the reference genome resolves the row of each of the
  term's locus ids to that locus. Without the proviso the lookup raises what the
  genome raises.
\<close>

theorem add_term_getitem_roundtrip:
  assumes ok: "add_term t c ow s = (Inr (), s')"
    and wf: "wf_store s"
    and res: "\<forall>l\<in>set (loci t). refgen_getitem E [locus_id l] = Inr l"
  shows "\<exists>t'. getitem E s' (tid t) = Inr t' \<and> tid t' = tid t \<and> desc t' = desc t
           \<and> set (loci t') = set (loci t)"
proof -
  let ?b = "base_tables ow (tid t) s"
  have t1: "terms s' = fst ?b @ [(tid t, desc t)]"
    and t2: "term_loci s' = snd ?b @ map (\<lambda>l. (tid t, locus_id l)) (loci t)"
    and fresh: "tid t \<notin> fst ` set (fst ?b)"
    using add_term_ok [OF ok] by simp_all
  have none: "tid t \<notin> fst ` set (snd ?b)"
  proof (cases ow)
    case True
    then show ?thesis by (auto simp: base_tables_def)
  next
    case False
    with fresh wf show ?thesis by (auto simp: base_tables_def wf_store_def)
  qed
  have found: "find (\<lambda>r. fst r = tid t) (terms s') = Some (tid t, desc t)"
    using fresh by (simp add: t1 find_append_new)
  have rows: "map (\<lambda>r. [snd r]) (filter (\<lambda>r. fst r = tid t) (term_loci s'))
                = map (\<lambda>l. [locus_id l]) (loci t)"
    using none by (simp add: t2 filter_none comp_def)
  have "getitem E s' (tid t) = Inr \<lparr>tid = tid t, desc = desc t, loci = loci t, attrs = Map.empty\<rparr>"
    using res by (simp add: getitem_def found rows collect_resolved)
  then show ?thesis by simp
qed

theorem add_term_getitem_roundtrip_witness:
  "add_term T1 None False empty_conn = (Inr (), store1) \<and> wf_store empty_conn
   \<and> refgen_getitem genome_env [''g1''] = Inr (Locus ''g1'' 10)
   \<and> refgen_getitem genome_env [''g2''] = Inr (Locus ''g2'' 20)
   \<and> (\<exists>t'. getitem genome_env store1 ''T1'' = Inr t' \<and> tid t' = ''T1'' \<and> desc t' = ''first''
           \<and> set (loci t') = {Locus ''g1'' 10, Locus ''g2'' 20})"
proof -
  have h1: "add_term T1 None False empty_conn = (Inr (), store1)"
    by (rule add_T1)
  have h2: "wf_store empty_conn"
    by (simp add: wf_store_def empty_conn_def)
  have g1: "refgen_getitem genome_env [''g1''] = Inr (Locus ''g1'' 10)"
    and g2: "refgen_getitem genome_env [''g2''] = Inr (Locus ''g2'' 20)"
    by (simp_all add: genome_env_def genome_getitem_def genome_def)
  have h3: "\<forall>l\<in>set (loci T1). refgen_getitem genome_env [locus_id l] = Inr l"
    using g1 g2 by (simp add: T1_def)
  have "\<exists>t'. getitem genome_env store1 (tid T1) = Inr t' \<and> tid t' = tid T1 \<and> desc t' = desc T1
           \<and> set (loci t') = set (loci T1)"
    by (rule add_term_getitem_roundtrip [OF h1 h2 h3])
  then have "\<exists>t'. getitem genome_env store1 ''T1'' = Inr t' \<and> tid t' = ''T1'' \<and> desc t' = ''first''
           \<and> set (loci t') = {Locus ''g1'' 10, Locus ''g2'' 20}"
    by (simp add: T1_def)
  with h1 h2 g1 g2 show ?thesis by blast
qed

text \<open>
  The claim as stated fails for a term with a locus the genome does not know: the insert
  succeeds, since \<open>add_term\<close> never asks the genome, and the lookup raises.
\<close>

theorem add_term_orphan_locus_counterexample:
  "fst (add_term T9 None False empty_conn) = Inr ()
   \<and> getitem genome_env (snd (add_term T9 None False empty_conn)) (tid T9) = Inl ResolverError"
  by (simp add: add_term_def and_then_def skip_def execute_def empty_conn_def T9_def
      getitem_def genome_env_def genome_getitem_def genome_def)

subsection \<open>Duplicate ids\<close>

text \<open>
  C2. After \<open>add_term(T)\<close> has succeeded, \<open>add_term\<close> of a term with the same id and
  \<open>overwrite=False\<close> raises apsw's ConstraintError (the DuplicateTermError of the
  specification), and the number of terms is what it was before the failed call. The
  first call manages its own transaction (\<open>cursor=None\<close>), the second may or may not,
  and the backend itself does not fail during the second.
\<close>

theorem add_term_twice_duplicate:
  assumes ok: "add_term t None ow s = (Inr (), s')"
    and same: "tid t' = tid t"
    and reliable: "budget s' = None"
  shows "fst (add_term t' c False s') = Inl ConstraintError
       \<and> ontology_len (snd (add_term t' c False s')) = ontology_len s'"
proof -
  have "tid t \<in> fst ` set (terms s')" and "\<not> in_txn s'"
    using add_term_ok [OF ok] by simp_all
  then show ?thesis
    using same reliable
    by (cases c) (simp_all add: add_term_def and_then_def skip_def execute_def ontology_len_def)
qed

theorem add_term_twice_duplicate_witness:
  "add_term T1 None False empty_conn = (Inr (), store1) \<and> tid T1' = tid T1 \<and> budget store1 = None
   \<and> fst (add_term T1' None False store1) = Inl ConstraintError
   \<and> ontology_len (snd (add_term T1' None False store1)) = ontology_len store1"
proof -
  have h2: "tid T1' = tid T1" by (simp add: T1_def T1'_def)
  have h3: "budget store1 = None" by (simp add: store1_def)
  show ?thesis
    using add_term_twice_duplicate [OF add_T1 h2 h3, of None] add_T1 h2 h3 by blast
qed

text \<open>
  The same inside a transaction of the caller, where both calls are handed a cursor, as
  \<open>add_terms\<close> does.
\<close>

lemma add_term_twice_batch:
  assumes ok: "add_term t (Some Cursor) ow s = (Inr (), s')"
    and same: "tid t' = tid t"
    and reliable: "budget s' = None"
  shows "fst (add_term t' (Some Cursor) False s') = Inl ConstraintError
       \<and> ontology_len (snd (add_term t' (Some Cursor) False s')) = ontology_len s'"
proof -
  have "tid t \<in> fst ` set (terms s')"
    using add_term_ok(1) [OF ok] by simp
  then show ?thesis
    using same reliable
    by (simp add: add_term_def and_then_def skip_def execute_def ontology_len_def)
qed

subsection \<open>An insert that fails half way\<close>

text \<open>
  A statement that raises changes no table. So whenever \<open>add_term\<close> raises after it has
  changed the table of terms, the descriptor row of the term is in the store and the
  transaction is open.
\<close>

lemma execute_fail:
  "execute q s = (Inl e, s') \<Longrightarrow>
     terms s' = terms s \<and> term_loci s' = term_loci s \<and> in_txn s' = in_txn s"
  by (cases q) (auto simp: execute_def split: option.splits nat.splits if_splits)

lemma insert_loci_any:
  "insert_loci t ls s = (r, s') \<Longrightarrow> terms s' = terms s \<and> in_txn s' = in_txn s"
proof (induction ls arbitrary: s)
  case Nil
  then show ?case by auto
next
  case (Cons l ls)
  then show ?case
    by (auto split: prod.splits sum.splits dest!: execute_InsertTermLocus_ok execute_fail)
qed

lemma add_term_failure_keeps_descriptor:
  assumes fail: "add_term t None False s = (Inl e, s')"
    and changed: "terms s' \<noteq> terms s"
  shows "terms s' = terms s @ [(tid t, desc t)] \<and> in_txn s'"
  using assms unfolding add_term_def and_then_def skip_def
  by (auto split: prod.splits sum.splits
      dest!: execute_fail execute_Begin_ok execute_InsertTerm_ok insert_loci_any)

text \<open>
  C3. The claim: after an \<open>add_term\<close> that fails between the insert of the descriptor
  row and the last insert of an association row, the lookup of the id fails and the
  store is as it was before. The source opens a transaction and, when a statement
  raises, neither rolls it back nor ends it: here the backend refuses the fourth
  statement (the second association row of \<open>T1\<close>), \<open>add_term\<close> raises, the descriptor
  row and the first association row stay, the transaction stays open, and the lookup
  returns a term with one of the two loci.
\<close>

theorem add_term_interrupted_partial_term:
  "add_term T1 None False (empty_conn\<lparr>budget := Some 3\<rparr>)
     = (Inl BackendError,
        \<lparr>terms = [(''T1'', ''first'')], term_loci = [(''T1'', ''g1'')], in_txn = True,
         budget = Some 0\<rparr>)
   \<and> getitem genome_env
        \<lparr>terms = [(''T1'', ''first'')], term_loci = [(''T1'', ''g1'')], in_txn = True,
         budget = Some 0\<rparr> ''T1''
     = Inr \<lparr>tid = ''T1'', desc = ''first'', loci = [Locus ''g1'' 10], attrs = Map.empty\<rparr>"
  by (simp add: add_term_def and_then_def skip_def execute_def empty_conn_def T1_def
      getitem_def genome_env_def genome_getitem_def genome_def numeral_3_eq_3)


subsection \<open>Lookup of an unknown id\<close>

text \<open>
  C4. For an id with no row in \<open>terms\<close>, \<open>__getitem__\<close> raises the TypeError of
  unpacking \<open>None\<close> (the NotFoundError of the specification).
\<close>

theorem getitem_not_stored:
  "i \<notin> fst ` set (terms s) \<Longrightarrow> getitem E s i = Inl TypeError"
proof -
  assume "i \<notin> fst ` set (terms s)"
  then have "find (\<lambda>r. fst r = i) (terms s) = None"
    by (rule find_none)
  then show ?thesis by (simp add: getitem_def)
qed

theorem getitem_not_stored_witness:
  "''T2'' \<notin> fst ` set (terms store1) \<and> getitem genome_env store1 ''T2'' = Inl TypeError"
proof -
  have h: "''T2'' \<notin> fst ` set (terms store1)" by (simp add: store1_def)
  show ?thesis using getitem_not_stored [OF h] h by blast
qed

subsection \<open>The universe\<close>

text \<open>
  C5. \<open>num_distinct_loci\<close> is the number of distinct locus ids in the association rows,
  and two stores with the same set of association rows, in whatever order and with
  whatever repetitions, have the same count.
\<close>

theorem num_distinct_loci_universe:
  "num_distinct_loci s = card (snd ` set (term_loci s)) \<and>
   (set (term_loci s') = set (term_loci s) \<longrightarrow> num_distinct_loci s' = num_distinct_loci s)"
  by (simp add: num_distinct_loci_def length_remdups_card_conv)


theorem num_distinct_loci_universe_witness:
  "set (term_loci (store1\<lparr>term_loci := [(''T1'', ''g2''), (''T1'', ''g1''), (''T1'', ''g2'')]\<rparr>))
     = set (term_loci store1)
   \<and> num_distinct_loci (store1\<lparr>term_loci := [(''T1'', ''g2''), (''T1'', ''g1''), (''T1'', ''g2'')]\<rparr>)
     = num_distinct_loci store1
   \<and> num_distinct_loci store1 = 2"
proof -
  have h: "set (term_loci (store1\<lparr>term_loci := [(''T1'', ''g2''), (''T1'', ''g1''), (''T1'', ''g2'')]\<rparr>))
             = set (term_loci store1)"
    by (auto simp: store1_def)
  have n: "num_distinct_loci store1 = 2"
    by (simp add: num_distinct_loci_def store1_def)
  show ?thesis
    using num_distinct_loci_universe
      [of store1 "store1\<lparr>term_loci := [(''T1'', ''g2''), (''T1'', ''g1''), (''T1'', ''g2'')]\<rparr>"] h n
    by simp
qed

subsection \<open>The loop of the enrichment test\<close>

lemma length_term_genes: "length (term_genes E s t) = card (membership E s (tid t))"
  by (simp add: term_genes_def membership_def length_remdups_card_conv)

lemma length_intersection:
  "length (intersection (term_genes E s t) ll) = card (membership E s (tid t) \<inter> set ll)"
proof -
  have "distinct (filter (\<lambda>g. g \<in> set ll) (term_genes E s t))"
    by (simp add: term_genes_def)
  then have "card (set (filter (\<lambda>g. g \<in> set ll) (term_genes E s t)))
               = length (filter (\<lambda>g. g \<in> set ll) (term_genes E s t))"
    by (rule distinct_card)
  then have "length (intersection (term_genes E s t) ll)
               = card (set (filter (\<lambda>g. g \<in> set ll) (term_genes E s t)))"
    by (simp only: intersection_def)
  also have "set (filter (\<lambda>g. g \<in> set ll) (term_genes E s t)) = membership E s (tid t) \<inter> set ll"
    by (auto simp: term_genes_def membership_def)
  finally show ?thesis .
qed

lemma enrich_loop_acc:
  "enrich_loop E s ll c m ts acc = acc @ enrich_loop E s ll c m ts []"
proof (induction ts arbitrary: acc)
  case Nil
  then show ?case by simp
next
  case (Cons t ts)
  show ?case
    using Cons.IH [of acc] Cons.IH [of "acc @ [x]" for x] Cons.IH [of "[x]" for x]
    by (simp add: Let_def)
qed

lemma enrich_loop_filter:
  "enrich_loop E s ll c m ts [] =
     map (\<lambda>t. set_attr t ''pval'' (pval_of E s ll (tid t)))
       (filter (\<lambda>t. int (card (membership E s (tid t))) \<le> m \<and> float_le (pval_of E s ll (tid t)) c) ts)"
proof (induction ts)
  case Nil
  then show ?case by simp
next
  case (Cons t ts)
  have step: "enrich_loop E s ll c m ts [x] = x # enrich_loop E s ll c m ts []" for x
    using enrich_loop_acc [of E s ll c m ts "[x]"] by simp
  show ?case
    using Cons.IH
    by (simp add: Let_def step length_term_genes length_intersection pval_of_def not_less)
qed

lemma float_le_trans: "float_le a b \<Longrightarrow> float_le b c \<Longrightarrow> float_le a c"
  by (cases a; cases b; cases c) auto


lemma enrichment_Inr:
  "enrichment E s ll c m = Inr res \<Longrightarrow>
     \<exists>names ts. candidates E s ll = Inr names \<and> collect (getitem E s) names = Inr ts
        \<and> res = enrich_loop E s ll c m ts []"
  by (auto simp: enrichment_def split: sum.splits)

lemma tid_set_attr: "tid (set_attr t k v) = tid t"
  by (simp add: set_attr_def)

lemma attrs_set_attr: "attrs (set_attr t k v) k = Some v"
  by (simp add: set_attr_def)

lemma cand1: "candidates genome_env store1 [Locus ''g1'' 10] = Inr [''T1'']"
  by (simp add: candidates_def distinct_rows_def sql_in_list_def in_list_text_def quote_def store1_def)

lemma look1: "getitem genome_env store1 ''T1'' = Inr T1"
  by (simp add: getitem_def store1_def genome_env_def genome_getitem_def genome_def T1_def)

lemma genes1: "term_genes genome_env store1 T1 = [Locus ''g1'' 10, Locus ''g2'' 20]"
  by (simp add: term_genes_def store1_def genome_env_def genome_from_ids_def genome_def T1_def)

lemma memb1: "membership genome_env store1 ''T1'' = {Locus ''g1'' 10, Locus ''g2'' 20}"
  by (auto simp add: membership_def store1_def genome_env_def genome_from_ids_def genome_def)

lemma univ1: "num_distinct_loci store1 = 2"
  by (simp add: num_distinct_loci_def store1_def)

lemma sf1: "hypergeom_sf genome_env (Suc 0) 2 (Suc (Suc 0)) (Suc 0) = Fin 0"
  by (simp add: genome_env_def exact_sf_def)

lemma enrich1:
  "enrichment genome_env store1 [Locus ''g1'' 10] (Fin (1/20)) 300 = Inr [set_attr T1 ''pval'' (Fin 0)]"
  by (simp add: enrichment_def cand1 look1 genes1 univ1 intersection_def sf1 Let_def)

lemma enrich2:
  "enrichment genome_env store1 [Locus ''g1'' 10] (Fin (1/20)) 1 = Inr []"
  by (simp add: enrichment_def cand1 look1 genes1)

subsection \<open>The candidate query\<close>

text \<open>
  For an input that is not empty and whose locus ids contain no quote, the text pasted
  into the query is read back as these ids, the candidates are the terms with an
  association row for one of them, and every term \<open>enrichment\<close> returns has such a row.
\<close>

lemma scan_literal:
  "quote \<notin> set x \<Longrightarrow>
     scan In_literal cur acc (x @ quote # rest) = scan After_quote (cur @ x) acc rest"
  by (induction x arbitrary: cur) auto

lemma scan_list:
  "xs \<noteq> [] \<Longrightarrow> \<forall>x\<in>set xs. quote \<notin> set x \<Longrightarrow>
     scan Before_literal cur acc (quote # join [quote, CHR '','', quote] xs @ [quote, CHR '')''])
       = Some (acc @ xs)"
proof (induction xs arbitrary: cur acc)
  case Nil
  then show ?case by simp
next
  case (Cons x xs)
  from Cons.prems have x: "quote \<notin> set x" by simp
  show ?case
  proof (cases xs)
    case Nil
    have "scan Before_literal cur acc (quote # x @ [quote, CHR '')''])
            = scan In_literal [] acc (x @ quote # [CHR '')''])" by simp
    also have "\<dots> = scan After_quote x acc [CHR '')'']"
      using scan_literal [OF x, of "[]"] by simp
    also have "\<dots> = Some (acc @ [x])" by (simp add: quote_def)
    finally show ?thesis using Nil by simp
  next
    case (Cons y ys)
    have "scan Before_literal cur acc
            (quote # join [quote, CHR '','', quote] (x # y # ys) @ [quote, CHR '')''])
          = scan In_literal [] acc
              (x @ quote # (CHR '','' # quote # join [quote, CHR '','', quote] (y # ys)
                 @ [quote, CHR '')'']))" by simp
    also have "\<dots> = scan After_quote x acc
              (CHR '','' # quote # join [quote, CHR '','', quote] (y # ys) @ [quote, CHR '')''])"
      using scan_literal [OF x, of "[]"] by simp
    also have "\<dots> = scan Before_literal [] (acc @ [x])
              (quote # join [quote, CHR '','', quote] (y # ys) @ [quote, CHR '')''])"
      by (simp add: quote_def)
    also have "\<dots> = Some ((acc @ [x]) @ (y # ys))"
      using Cons.IH [of "[]" "acc @ [x]"] Cons.prems \<open>xs = y # ys\<close> by simp
    finally show ?thesis using Cons by simp
  qed
qed

lemma sql_in_list_plain:
  assumes "ll \<noteq> []" and "\<forall>l\<in>set ll. quote \<notin> set (locus_id l)"
  shows "sql_in_list (in_list_text ll) = Some (map locus_id ll)"
  using scan_list [of "map locus_id ll" "[]" "[]"] assms
  by (simp add: sql_in_list_def in_list_text_def)

lemma set_distinct_rows: "set (distinct_rows xs) = set xs"
  by (simp add: distinct_rows_def)

lemma candidates_plain:
  assumes "ll \<noteq> []" and "\<forall>l\<in>set ll. quote \<notin> set (locus_id l)"
  shows "candidates E s ll
           = Inr (distinct_rows (map fst (filter (\<lambda>r. snd r \<in> locus_id ` set ll) (term_loci s))))"
  by (simp add: candidates_def sql_in_list_plain [OF assms])

lemma find_fst: "find (\<lambda>r. fst r = i) xs = Some r \<Longrightarrow> fst r = i"
  by (induction xs) (auto split: if_splits)

lemma getitem_tid: "getitem E s i = Inr t \<Longrightarrow> tid t = i"
  by (auto simp: getitem_def split: option.splits sum.splits prod.splits dest: find_fst)

lemma collect_getitem_tids: "collect (getitem E s) names = Inr ts \<Longrightarrow> map tid ts = names"
  by (induction names arbitrary: ts) (auto split: sum.splits dest: getitem_tid)

lemma enrichment_overlap:
  assumes "ll \<noteq> []" and "\<forall>l\<in>set ll. quote \<notin> set (locus_id l)"
    and ok: "enrichment E s ll c m = Inr res" and t: "t \<in> set res"
  shows "\<exists>r\<in>set (term_loci s). fst r = tid t \<and> snd r \<in> locus_id ` set ll"
proof -
  from enrichment_Inr [OF ok] obtain names ts
    where cand: "candidates E s ll = Inr names" and look: "collect (getitem E s) names = Inr ts"
      and res: "res = enrich_loop E s ll c m ts []"
    by blast
  from t have "tid t \<in> tid ` set ts"
    unfolding res enrich_loop_filter by (auto simp: tid_set_attr)
  also have "tid ` set ts = set names"
    using collect_getitem_tids [OF look] by (metis set_map)
  finally have "tid t \<in> set names" .
  with cand show ?thesis
    by (force simp: candidates_plain [OF assms(1,2)] set_distinct_rows)
qed

lemma cand_quoted: "candidates genome_env store2 [Locus quoted_id 0] = Inr [''T1'']"
  by (simp add: candidates_def distinct_rows_def sql_in_list_def in_list_text_def quoted_id_def quote_def store2_def)

lemma look2: "getitem genome_env store2 ''T1'' = Inr T1"
  by (simp add: getitem_def store2_def genome_env_def genome_getitem_def genome_def T1_def)

lemma genes2: "term_genes genome_env store2 T1 = [Locus ''g1'' 10, Locus ''g2'' 20]"
  by (simp add: term_genes_def store2_def genome_env_def genome_from_ids_def genome_def T1_def)

lemma univ2: "num_distinct_loci store2 = 3"
  by (simp add: num_distinct_loci_def store2_def)

lemma sf_quoted: "hypergeom_sf genome_env 0 3 (Suc (Suc 0)) (Suc 0) = Fin (2/3)"
  by (simp add: genome_env_def exact_sf_def)

lemma enrich_quoted:
  "enrichment genome_env store2 [Locus quoted_id 0] (Fin (7/10)) 300
     = Inr [set_attr T1 ''pval'' (Fin (2/3))]"
  by (simp add: enrichment_def cand_quoted look2 genes2 univ2 intersection_def Let_def sf_quoted)


lemma add_T0: "add_term T0 None False empty_conn = (Inr (), store0)"
  by (simp add: add_term_def and_then_def skip_def execute_def empty_conn_def T0_def store0_def)

lemma cand_empty: "candidates whole_env store0 [] = Inr [''T0'']"
  by (simp add: candidates_def distinct_rows_def sql_in_list_def in_list_text_def quote_def store0_def)

lemma look0: "getitem whole_env store0 ''T0'' = Inr T0"
  by (simp add: getitem_def store0_def whole_env_def T0_def)

lemma genes0: "term_genes whole_env store0 T0 = [Locus [] 0]"
  by (simp add: term_genes_def store0_def whole_env_def T0_def)

lemma univ0: "num_distinct_loci store0 = Suc 0"
  by (simp add: num_distinct_loci_def store0_def)

lemma sf0: "hypergeom_sf whole_env 0 (Suc 0) (Suc 0) 0 = Fin 0"
  by (simp add: whole_env_def exact_sf_def)

lemma enrich_empty:
  "enrichment whole_env store0 [] (Fin (1/20)) 300 = Inr [set_attr T0 ''pval'' (Fin 0)]"
  by (simp add: enrichment_def cand_empty look0 genes0 univ0 sf0 intersection_def Let_def)

text \<open>
  C6. The claim: a term none of whose associated locus ids appears in \<open>locus_list\<close> is
  never a candidate and never returned (the docstring of \<open>enrichment\<close> says the same).
  The source pastes the ids into the text of the query without escaping them. With the
  one locus id \<^verbatim>\<open>x','g1\<close> in the input the query reads \<^verbatim>\<open>IN ('x','g1')\<close>: the term \<open>T1\<close>,
  whose loci are \<open>g1\<close> and \<open>g2\<close>, is a candidate and is returned at a cutoff of 0.7,
  with p-value 2/3. With the empty input the query reads \<^verbatim>\<open>IN ('')\<close>: the term \<open>T0\<close>,
  whose one locus has the empty id, is a candidate and is returned at the default
  cutoff, with p-value 0.
\<close>

theorem enrichment_candidate_without_overlap:
  "candidates genome_env store2 [Locus quoted_id 0] = Inr [''T1'']
   \<and> quoted_id \<notin> snd ` set (term_loci store2)
   \<and> enrichment genome_env store2 [Locus quoted_id 0] (Fin (7/10)) 300
       = Inr [set_attr T1 ''pval'' (Fin (2/3))]
   \<and> add_term T0 None False empty_conn = (Inr (), store0)
   \<and> candidates whole_env store0 [] = Inr [''T0'']
   \<and> enrichment whole_env store0 [] (Fin (1/20)) 300 = Inr [set_attr T0 ''pval'' (Fin 0)]"
proof -
  have "quoted_id \<notin> snd ` set (term_loci store2)"
    by (simp add: quoted_id_def store2_def)
  with cand_quoted enrich_quoted add_T0 cand_empty enrich_empty show ?thesis by simp
qed

subsection \<open>Terms too large to test\<close>

text \<open>
  C7. A term whose resolved membership has more than \<open>max_term_size\<close> loci has its id
  nowhere in the result of \<open>enrichment\<close>, whatever its overlap with the input; and the
  loop passes over such a term without any other effect: it goes on with the next
  candidate and the terms found so far.
\<close>

theorem enrichment_max_term_size:
  "(enrichment E s ll c m = Inr res \<longrightarrow> m < int (card (membership E s i)) \<longrightarrow> i \<notin> tid ` set res)
   \<and> (m < int (card (membership E s (tid t))) \<longrightarrow>
        enrich_loop E s ll c m (t # ts) acc = enrich_loop E s ll c m ts acc)"
proof (intro conjI impI)
  assume ok: "enrichment E s ll c m = Inr res" and big: "m < int (card (membership E s i))"
  from enrichment_Inr [OF ok] obtain cs where res: "res = enrich_loop E s ll c m cs []"
    by blast
  show "i \<notin> tid ` set res"
  proof
    assume "i \<in> tid ` set res"
    then obtain t' where t': "t' \<in> set res" and i: "i = tid t'" by blast
    from t' have "int (card (membership E s (tid t'))) \<le> m"
      unfolding res enrich_loop_filter by (auto simp: tid_set_attr)
    with big i show False by simp
  qed
next
  assume "m < int (card (membership E s (tid t)))"
  then show "enrich_loop E s ll c m (t # ts) acc = enrich_loop E s ll c m ts acc"
    by (simp add: length_term_genes)
qed

theorem enrichment_max_term_size_witness:
  "enrichment genome_env store1 [Locus ''g1'' 10] (Fin (1/20)) 1 = Inr []
   \<and> 1 < int (card (membership genome_env store1 ''T1''))
   \<and> ''T1'' \<notin> tid ` set ([] :: ontology_term list)
   \<and> enrich_loop genome_env store1 [Locus ''g1'' 10] (Fin (1/20)) 1 [T1] []
       = enrich_loop genome_env store1 [Locus ''g1'' 10] (Fin (1/20)) 1 [] []"
proof -
  have big: "1 < int (card (membership genome_env store1 ''T1''))"
    by (simp add: memb1)
  have big': "1 < int (card (membership genome_env store1 (tid T1)))"
    using big by (simp add: T1_def)
  from enrichment_max_term_size
    [of genome_env store1 "[Locus ''g1'' 10]" "Fin (1/20)" 1 "[]" "''T1''" T1 "[]" "[]"]
    enrich2 big big'
  show ?thesis by simp
qed

subsection \<open>Raising the cutoff\<close>

text \<open>
  C8. For cutoffs \<open>c1 \<le> c2\<close>, a call of \<open>enrichment\<close> that returns at \<open>c1\<close> returns at
  \<open>c2\<close> too, on the same store and input, and every term of the first result is a term
  of the second.
\<close>

theorem enrichment_cutoff_monotone:
  assumes le: "float_le c1 c2" and ok: "enrichment E s ll c1 m = Inr r1"
  shows "\<exists>r2. enrichment E s ll c2 m = Inr r2 \<and> set r1 \<subseteq> set r2"
proof -
  from enrichment_Inr [OF ok] obtain names ts
    where cand: "candidates E s ll = Inr names" and look: "collect (getitem E s) names = Inr ts"
      and r1: "r1 = enrich_loop E s ll c1 m ts []"
    by blast
  have r2: "enrichment E s ll c2 m = Inr (enrich_loop E s ll c2 m ts [])"
    by (simp add: enrichment_def cand look)
  have "set r1 \<subseteq> set (enrich_loop E s ll c2 m ts [])"
    unfolding r1 enrich_loop_filter using float_le_trans [OF _ le] by auto
  with r2 show ?thesis by blast
qed

theorem enrichment_cutoff_monotone_witness:
  "float_le (Fin 0) (Fin (1/20))
   \<and> enrichment genome_env store1 [Locus ''g1'' 10] (Fin 0) 300 = Inr [set_attr T1 ''pval'' (Fin 0)]
   \<and> (\<exists>r2. enrichment genome_env store1 [Locus ''g1'' 10] (Fin (1/20)) 300 = Inr r2
          \<and> set [set_attr T1 ''pval'' (Fin 0)] \<subseteq> set r2)"
proof -
  have le: "float_le (Fin 0) (Fin (1/20))" by simp
  have low: "enrichment genome_env store1 [Locus ''g1'' 10] (Fin 0) 300
               = Inr [set_attr T1 ''pval'' (Fin 0)]"
    by (simp add: enrichment_def cand1 look1 genes1 univ1 intersection_def sf1 Let_def)
  from enrichment_cutoff_monotone [OF le low] le low show ?thesis by blast
qed

subsection \<open>The counts of the test\<close>

lemma tid_T1: "tid T1 = ''T1''"
  by (simp add: T1_def)

lemma cand11:
  "candidates genome_env store1 [Locus ''g1'' 10, Locus ''g1'' 10] = Inr [''T1'']"
  by (simp add: candidates_def distinct_rows_def sql_in_list_def in_list_text_def quote_def
      store1_def)

lemma sf11: "hypergeom_sf genome_env (Suc 0) 2 (Suc (Suc 0)) (Suc (Suc 0)) = Fin 1"
  by (simp add: genome_env_def exact_sf_def numeral_2_eq_2)

text \<open>
  C9. In every call of \<open>enrichment\<close>, each candidate term is decided and annotated
  with the survival function at these four counts: the size of the intersection of the
  term's resolved membership with the input taken as a set, the number of distinct loci
  of the store, the size of the membership, and the length of the input as a list. So
  the result is the candidates that pass the two tests, each with that p-value. An
  entry added to the input that is already in it leaves the first count as it is and
  adds one to the last.
\<close>

theorem enrichment_counts:
  "enrichment E s ll c m =
     (case candidates E s ll of
        Inl e \<Rightarrow> Inl e
      | Inr names \<Rightarrow>
          (case collect (getitem E s) names of
             Inl e \<Rightarrow> Inl e
           | Inr ts \<Rightarrow>
               Inr (map (\<lambda>t. set_attr t ''pval''
                              (hypergeom_sf E (card (membership E s (tid t) \<inter> set ll))
                                 (num_distinct_loci s) (card (membership E s (tid t))) (length ll)))
                     (filter (\<lambda>t. int (card (membership E s (tid t))) \<le> m
                                \<and> float_le (hypergeom_sf E (card (membership E s (tid t) \<inter> set ll))
                                     (num_distinct_loci s) (card (membership E s (tid t))) (length ll)) c)
                        ts))))
   \<and> (x \<in> set ll \<longrightarrow>
        enrichment E s (x # ll) c m =
         (case candidates E s (x # ll) of
            Inl e \<Rightarrow> Inl e
          | Inr names \<Rightarrow>
              (case collect (getitem E s) names of
                 Inl e \<Rightarrow> Inl e
               | Inr ts \<Rightarrow>
                   Inr (map (\<lambda>t. set_attr t ''pval''
                                  (hypergeom_sf E (card (membership E s (tid t) \<inter> set ll))
                                     (num_distinct_loci s) (card (membership E s (tid t)))
                                     (Suc (length ll))))
                         (filter (\<lambda>t. int (card (membership E s (tid t))) \<le> m
                                    \<and> float_le (hypergeom_sf E (card (membership E s (tid t) \<inter> set ll))
                                         (num_distinct_loci s) (card (membership E s (tid t)))
                                         (Suc (length ll))) c)
                            ts)))))"
proof (intro conjI impI)
  show "enrichment E s ll c m =
     (case candidates E s ll of
        Inl e \<Rightarrow> Inl e
      | Inr names \<Rightarrow>
          (case collect (getitem E s) names of
             Inl e \<Rightarrow> Inl e
           | Inr ts \<Rightarrow>
               Inr (map (\<lambda>t. set_attr t ''pval''
                              (hypergeom_sf E (card (membership E s (tid t) \<inter> set ll))
                                 (num_distinct_loci s) (card (membership E s (tid t))) (length ll)))
                     (filter (\<lambda>t. int (card (membership E s (tid t))) \<le> m
                                \<and> float_le (hypergeom_sf E (card (membership E s (tid t) \<inter> set ll))
                                     (num_distinct_loci s) (card (membership E s (tid t))) (length ll)) c)
                        ts))))"
    by (simp add: enrichment_def enrich_loop_filter pval_of_def split: sum.splits)
next
  assume "x \<in> set ll"
  then have same: "set (x # ll) = set ll" by auto
  show "enrichment E s (x # ll) c m =
         (case candidates E s (x # ll) of
            Inl e \<Rightarrow> Inl e
          | Inr names \<Rightarrow>
              (case collect (getitem E s) names of
                 Inl e \<Rightarrow> Inl e
               | Inr ts \<Rightarrow>
                   Inr (map (\<lambda>t. set_attr t ''pval''
                                  (hypergeom_sf E (card (membership E s (tid t) \<inter> set ll))
                                     (num_distinct_loci s) (card (membership E s (tid t)))
                                     (Suc (length ll))))
                         (filter (\<lambda>t. int (card (membership E s (tid t))) \<le> m
                                    \<and> float_le (hypergeom_sf E (card (membership E s (tid t) \<inter> set ll))
                                         (num_distinct_loci s) (card (membership E s (tid t)))
                                         (Suc (length ll))) c)
                            ts))))"
    unfolding enrichment_def enrich_loop_filter pval_of_def same
    by (simp split: sum.splits)
qed

theorem enrichment_counts_witness:
  "Locus ''g1'' 10 \<in> set [Locus ''g1'' 10]
   \<and> enrichment genome_env store1 [Locus ''g1'' 10] (Fin 1) 300
       = Inr [set_attr T1 ''pval'' (Fin 0)]
   \<and> enrichment genome_env store1 [Locus ''g1'' 10, Locus ''g1'' 10] (Fin 1) 300
       = Inr [set_attr T1 ''pval'' (Fin 1)]"
proof -
  have inp: "Locus ''g1'' 10 \<in> set [Locus ''g1'' 10]" by simp
  from enrichment_counts [of genome_env store1 "[Locus ''g1'' 10]" "Fin 1" 300 "Locus ''g1'' 10"]
    inp cand1 cand11 look1 memb1 univ1 sf1 sf11 tid_T1
  show ?thesis by simp
qed

subsection \<open>Parameters that are not positive\<close>

text \<open>
  C10 (as amended). \<open>enrichment\<close> does not check \<open>pval_cutoff\<close> and \<open>max_term_size\<close>:
  whether a call fails, and with which error, is the same for all values of the two
  parameters; every term of a result has at most \<open>max_term_size\<close> resolved members and
  carries a p-value that is at most \<open>pval_cutoff\<close>, whatever the sign of the two; and a
  call with a lower cutoff and a lower maximal size, positive or not, returns a part of
  what the call with the higher ones returns.
\<close>

theorem enrichment_parameters_unchecked:
  "(enrichment E s ll c m = Inl e) = (enrichment E s ll c' m' = Inl e)
   \<and> (enrichment E s ll c m = Inr res \<longrightarrow>
        (\<forall>t\<in>set res. int (card (membership E s (tid t))) \<le> m
           \<and> (\<exists>p. attrs t ''pval'' = Some p \<and> float_le p c)))
   \<and> (enrichment E s ll c m = Inr res \<longrightarrow> float_le c' c \<longrightarrow> m' \<le> m \<longrightarrow>
        (\<exists>res'. enrichment E s ll c' m' = Inr res' \<and> set res' \<subseteq> set res))"
proof (intro conjI impI ballI)
  show "(enrichment E s ll c m = Inl e) = (enrichment E s ll c' m' = Inl e)"
    by (simp add: enrichment_def split: sum.splits)
next
  fix t assume ok: "enrichment E s ll c m = Inr res" and t: "t \<in> set res"
  from enrichment_Inr [OF ok] obtain ts where res: "res = enrich_loop E s ll c m ts []"
    by blast
  from t show "int (card (membership E s (tid t))) \<le> m"
    unfolding res enrich_loop_filter by (auto simp: tid_set_attr)
  from t show "\<exists>p. attrs t ''pval'' = Some p \<and> float_le p c"
    unfolding res enrich_loop_filter by (auto simp: attrs_set_attr)
next
  assume ok: "enrichment E s ll c m = Inr res" and le: "float_le c' c" and m: "m' \<le> m"
  from enrichment_Inr [OF ok] obtain names ts
    where cand: "candidates E s ll = Inr names" and look: "collect (getitem E s) names = Inr ts"
      and res: "res = enrich_loop E s ll c m ts []"
    by blast
  have r': "enrichment E s ll c' m' = Inr (enrich_loop E s ll c' m' ts [])"
    by (simp add: enrichment_def cand look)
  have "set (enrich_loop E s ll c' m' ts []) \<subseteq> set res"
    unfolding res enrich_loop_filter using float_le_trans [OF _ le] m by auto
  with r' show "\<exists>res'. enrichment E s ll c' m' = Inr res' \<and> set res' \<subseteq> set res" by blast
qed


theorem enrichment_parameters_unchecked_witness:
  "enrichment genome_env store1 [Locus ''g1'' 10] (Fin (1/20)) 300
     = Inr [set_attr T1 ''pval'' (Fin 0)]
   \<and> float_le (Fin 0) (Fin (1/20)) \<and> (0::int) \<le> 300
   \<and> int (card (membership genome_env store1 ''T1'')) \<le> 300
   \<and> (\<exists>p. attrs (set_attr T1 ''pval'' (Fin 0)) ''pval'' = Some p \<and> float_le p (Fin (1/20)))
   \<and> (\<exists>res'. enrichment genome_env store1 [Locus ''g1'' 10] (Fin 0) 0 = Inr res'
          \<and> set res' \<subseteq> set [set_attr T1 ''pval'' (Fin 0)])"
proof -
  have le: "float_le (Fin 0) (Fin (1/20))" by simp
  have m: "(0::int) \<le> 300" by simp
  have tid1: "tid (set_attr T1 ''pval'' (Fin 0)) = ''T1''"
    by (simp add: tid_set_attr tid_T1)
  from enrichment_parameters_unchecked
    [of genome_env store1 "[Locus ''g1'' 10]" "Fin (1/20)" 300 TypeError "Fin 0" 0
        "[set_attr T1 ''pval'' (Fin 0)]"]
    enrich1 le m tid1
  show ?thesis by simp
qed

text \<open>
  The claim as stated fails: with a cutoff and a maximal size that are zero or negative
  the call returns, and with a cutoff of zero it can even return a term.
\<close>

theorem enrichment_nonpositive_counterexample:
  "enrichment genome_env store1 [Locus ''g1'' 10] (Fin 0) 0 = Inr []
   \<and> enrichment genome_env store1 [Locus ''g1'' 10] (Fin (- 1)) (- 1) = Inr []
   \<and> enrichment genome_env store1 [Locus ''g1'' 10] (Fin 0) 300 = Inr [set_attr T1 ''pval'' (Fin 0)]"
  by (simp add: enrichment_def cand1 look1 genes1 univ1 intersection_def sf1 Let_def)

end
